theory Spec2Isabelle
  imports Complex_Main
begin

section \<open>Property maps (\<open>emg3d/maps.py\<close>)\<close>

text \<open>
  The six classes registered in \<open>MAPLIST\<close>.  Each maps the conductivity \<open>\<sigma>\<close> to the
  investigation variable (\<open>forward\<close>) and back (\<open>backward\<close>).  Floating-point values are
  modelled as real numbers: \<open>np.log10\<close> is \<open>log 10\<close>, \<open>np.log\<close> is \<open>ln\<close>, \<open>10**x\<close> is
  \<open>10 powr x\<close> and \<open>np.exp\<close> is \<open>exp\<close>.
\<close>

datatype pmap =
    MapConductivity
  | MapLgConductivity
  | MapLnConductivity
  | MapResistivity
  | MapLgResistivity
  | MapLnResistivity

fun forward :: "pmap \<Rightarrow> real \<Rightarrow> real" where
  "forward MapConductivity conductivity = conductivity"
| "forward MapLgConductivity conductivity = log 10 conductivity"
| "forward MapLnConductivity conductivity = ln conductivity"
| "forward MapResistivity conductivity = 1 / conductivity"
| "forward MapLgResistivity conductivity = log 10 (1 / conductivity)"
| "forward MapLnResistivity conductivity = ln (1 / conductivity)"

fun backward :: "pmap \<Rightarrow> real \<Rightarrow> real" where
  "backward MapConductivity mapped = mapped"
| "backward MapLgConductivity mapped = 10 powr mapped"
| "backward MapLnConductivity mapped = exp mapped"
| "backward MapResistivity mapped = 1 / mapped"
| "backward MapLgResistivity mapped = 10 powr (- mapped)"
| "backward MapLnResistivity mapped = exp (- mapped)"


section \<open>Field construction (\<open>emg3d/fields.py\<close>)\<close>

datatype dtype = Float64 | Complex128

datatype error = ValueError string

text \<open>
  \<open>np.asarray(data, dtype=dtype)\<close>: a cast to \<open>float64\<close> keeps the real part only.
\<close>

fun asarray :: "complex list \<Rightarrow> dtype \<Rightarrow> complex list" where
  "asarray data Complex128 = data"
| "asarray data Float64 = map (\<lambda>z. complex_of_real (Re z)) data"

record field_obj =
  f_field :: "complex list"
  f_dtype :: dtype
  f_frequency :: "real option"

text \<open>
  \<open>Field.__init__(grid, data, frequency, dtype)\<close>.  Of the grid only \<open>n_edges\<close> is used;
  \<open>data\<close>, when given, comes with its own dtype.  The three-way test on \<open>frequency\<close>
  is kept in the order of the source.
\<close>

definition Field_init ::
  "nat \<Rightarrow> (dtype \<times> complex list) option \<Rightarrow> real option \<Rightarrow> dtype option \<Rightarrow> error + field_obj"
where
  "Field_init n_edges data frequency dtype =
     (let dt =
        (case frequency of
           Some f \<Rightarrow>
             (if f > 0 then Inr Complex128
              else if f < 0 then Inr Float64
              else Inl (ValueError ''frequency''))
         | None \<Rightarrow>
             (case data of
                Some (ddt, _) \<Rightarrow> Inr ddt
              | None \<Rightarrow> (case dtype of None \<Rightarrow> Inr Complex128 | Some d \<Rightarrow> Inr d)))
      in case dt of
           Inl e \<Rightarrow> Inl e
         | Inr d \<Rightarrow>
             Inr \<lparr> f_field = (case data of
                                None \<Rightarrow> replicate n_edges 0
                              | Some (_, vs) \<Rightarrow> asarray vs d),
                   f_dtype = d,
                   f_frequency = frequency \<rparr>)"

text \<open>The property \<open>Field.sval\<close>.\<close>

definition sval :: "field_obj \<Rightarrow> complex option" where
  "sval fld =
     (case f_frequency fld of
        Some f \<Rightarrow>
          (if f < 0 then Some (complex_of_real f)
           else Some (- 2 * \<i> * complex_of_real pi * complex_of_real f))
      | None \<Rightarrow> None)"


section \<open>Solver settings (\<open>MGParameters\<close> in \<open>emg3d/solver.py\<close>)\<close>

text \<open>
  A Python argument that is either a \<open>bool\<close> or an \<open>int\<close> (\<open>semicoarsening\<close>,
  \<open>linerelaxation\<close>) or either a \<open>bool\<close> or a \<open>str\<close> (\<open>sslsolver\<close>).
\<close>

datatype pyflag = PyBool bool | PyInt int

datatype pysolver = SolBool bool | SolStr string

text \<open>
  \<open>itertools.cycle\<close> over a non-empty array: the items and the position of the item
  that \<open>next\<close> returns.
\<close>

type_synonym cyc_iter = "nat list \<times> nat"

definition new_cycle :: "nat list \<Rightarrow> cyc_iter" where
  "new_cycle xs = (xs, 0)"

definition next_cycle :: "cyc_iter \<Rightarrow> nat \<times> cyc_iter" where
  "next_cycle c = (case c of (xs, i) \<Rightarrow> (xs ! i, (xs, (i + 1) mod length xs)))"

text \<open>\<open>[int(x) for x in str(n)]\<close> for a non-negative \<open>n\<close>: its decimal digits.\<close>

fun digits :: "nat \<Rightarrow> nat list" where
  "digits n = (if n < 10 then [n] else digits (n div 10) @ [n mod 10])"

declare digits.simps [simp del]

text \<open>
  Step 1 of \<open>__post_init__\<close>: the array \<open>rcycle\<close> and whether \<open>self.rcycle\<close> is an
  iterator (\<open>True\<close>) or \<open>False\<close>.
\<close>

definition semicoarsening_cycle :: "pyflag \<Rightarrow> error + (nat list \<times> bool)" where
  "semicoarsening_cycle sc =
     (if sc = PyBool True then Inr ([1, 2, 3], True)
      else if sc = PyBool False then Inr ([0], False)
      else (case sc of
              PyInt n \<Rightarrow>
                (if 0 \<le> n \<and> n < 4 then Inr ([nat n], False)
                 else (let rcycle = digits (nat \<bar>n\<bar>)
                       in if (\<exists>d \<in> set rcycle. d > 3)
                          then Inl (ValueError ''semicoarsening'')
                          else Inr (rcycle, True)))
            | PyBool b \<Rightarrow> Inr ([0], False)))"

text \<open>Step 2 of \<open>__post_init__\<close>: the same for \<open>lcycle\<close>.\<close>

definition linerelaxation_cycle :: "pyflag \<Rightarrow> error + (nat list \<times> bool)" where
  "linerelaxation_cycle lr =
     (if lr = PyBool True then Inr ([4, 5, 6], True)
      else if lr = PyBool False then Inr ([0], False)
      else (case lr of
              PyInt n \<Rightarrow>
                (if 0 \<le> n \<and> n < 8 then Inr ([nat n], False)
                 else (let lcycle = digits (nat \<bar>n\<bar>)
                       in if (\<exists>d \<in> set lcycle. d > 7)
                          then Inl (ValueError ''linerelaxation'')
                          else Inr (lcycle, True)))
            | PyBool b \<Rightarrow> Inr ([0], False)))"

text \<open>
  The loop of \<open>max_level\<close> for one dimension:
  \<^verbatim>\<open>while n % 2 == 0 and n > 2: clevel[i] += 1; n /= 2\<close>.
\<close>

function max_level_loop :: "nat \<Rightarrow> nat \<Rightarrow> nat" where
  "max_level_loop n c =
     (if n mod 2 = 0 \<and> n > 2 then max_level_loop (n div 2) (c + 1) else c)"
  by pat_completeness auto
termination
  by (relation "measure (\<lambda>(n, c). n)") auto

declare max_level_loop.simps [simp del]

text \<open>The cap by the user's \<open>clevel\<close> (\<open>-1\<close> means no cap).\<close>

definition cap_level :: "int \<Rightarrow> nat \<Rightarrow> nat" where
  "cap_level user c = (if user > - 1 \<and> user < int c then nat user else c)"

text \<open>
  The property \<open>max_level\<close>: the per-dimension levels, and the array \<open>self.clevel\<close> with
  one entry for each value of \<open>rdir\<close>.  It raises when a dimension has fewer than two
  cells.
\<close>

definition dim_levels :: "int \<Rightarrow> nat \<times> nat \<times> nat \<Rightarrow> nat \<times> nat \<times> nat" where
  "dim_levels user shape =
     (case shape of (nx, ny, nz) \<Rightarrow>
        (cap_level user (max_level_loop nx 0),
         cap_level user (max_level_loop ny 0),
         cap_level user (max_level_loop nz 0)))"

definition max_level :: "int \<Rightarrow> nat \<times> nat \<times> nat \<Rightarrow> error + nat list" where
  "max_level user shape =
     (case dim_levels user shape of (cx, cy, cz) \<Rightarrow>
        (case shape of (nx, ny, nz) \<Rightarrow>
           if nx < 2 \<or> ny < 2 \<or> nz < 2 then Inl (ValueError ''nCx/nCy/nCz'')
           else Inr [max (max cx cy) cz, max cy cz, max cx cz, max cx cy]))"

text \<open>The arguments of \<open>MGParameters(...)\<close>, with the defaults of the dataclass.\<close>

record mg_input =
  in_verb :: int
  in_cycle :: "string option"
  in_sslsolver :: pysolver
  in_linerelaxation :: pyflag
  in_semicoarsening :: pyflag
  in_vnC :: "nat \<times> nat \<times> nat"
  in_tol :: real
  in_maxit :: int
  in_nu_init :: int
  in_nu_pre :: int
  in_nu_coarse :: int
  in_nu_post :: int
  in_clevel :: int

definition default_input :: "nat \<times> nat \<times> nat \<Rightarrow> mg_input" where
  "default_input shape =
     \<lparr> in_verb = 2, in_cycle = Some ''F'', in_sslsolver = SolBool False,
       in_linerelaxation = PyBool False, in_semicoarsening = PyBool False,
       in_vnC = shape, in_tol = 1 / 10 ^ 6, in_maxit = 50,
       in_nu_init = 0, in_nu_pre = 2, in_nu_coarse = 1, in_nu_post = 2,
       in_clevel = - 1 \<rparr>"

text \<open>
  The object after \<open>__post_init__\<close>; the field \<open>var.x\<close> of the source is \<open>var_x\<close>.  \<open>sslsolver\<close> is \<open>None\<close> for \<open>False\<close>; \<open>rcycle\<close> and
  \<open>lcycle\<close> are \<open>None\<close> for \<open>False\<close>.
\<close>

record MGParameters =
  var_verb :: int
  var_cycle :: "string option"
  var_sslsolver :: "string option"
  var_linerelaxation :: bool
  var_semicoarsening :: bool
  var_vnC :: "nat \<times> nat \<times> nat"
  var_tol :: real
  var_maxit :: int
  var_nu_init :: int
  var_nu_pre :: int
  var_nu_coarse :: int
  var_nu_post :: int
  var_clevel :: "nat list"
  var_it :: nat
  var_ssl_it :: nat
  var_l2 :: real
  var_rcycle :: "cyc_iter option"
  var_rdir :: nat
  var_lcycle :: "cyc_iter option"
  var_ldir :: nat
  var_cycmax :: nat
  var_ssl_maxit :: int
  var_first_cycle :: bool

definition solvers :: "string list" where
  "solvers = [''bicgstab'', ''cgs'', ''gmres'', ''lgmres'', ''gcrotmk'']"

text \<open>Step 3 of \<open>__post_init__\<close>: the check of \<open>sslsolver\<close>.\<close>

definition check_sslsolver :: "pysolver \<Rightarrow> error + string option" where
  "check_sslsolver s =
     (case s of
        SolBool True \<Rightarrow> Inr (Some ''bicgstab'')
      | SolBool False \<Rightarrow> Inr None
      | SolStr name \<Rightarrow>
          (if name \<notin> set solvers then Inl (ValueError ''sslsolver!r'') else Inr (Some name)))"

text \<open>Truth value of \<open>self.sslsolver\<close> and of \<open>self.cycle\<close> (a non-empty string is true).\<close>

definition truthy :: "string option \<Rightarrow> bool" where
  "truthy s = (case s of None \<Rightarrow> False | Some n \<Rightarrow> n \<noteq> [])"

text \<open>The first direction of a cycle: \<open>next(self.rcycle)\<close> or \<open>rcycle[0]\<close>.\<close>

definition first_dir :: "nat list \<times> bool \<Rightarrow> nat \<times> cyc_iter option" where
  "first_dir rc =
     (case rc of (xs, cycles) \<Rightarrow>
        if cycles then (case next_cycle (new_cycle xs) of (d, c) \<Rightarrow> (d, Some c))
        else (xs ! 0, None))"

definition post_init :: "mg_input \<Rightarrow> error + MGParameters" where
  "post_init inp =
     (case semicoarsening_cycle (in_semicoarsening inp) of
        Inl e \<Rightarrow> Inl e
      | Inr rc \<Rightarrow>
     (case linerelaxation_cycle (in_linerelaxation inp) of
        Inl e \<Rightarrow> Inl e
      | Inr lc \<Rightarrow>
     (case check_sslsolver (in_sslsolver inp) of
        Inl e \<Rightarrow> Inl e
      | Inr ssl \<Rightarrow>
     (if in_cycle inp \<notin> {Some ''F'', Some ''V'', Some ''W'', None}
      then Inl (ValueError ''cycle'')
      else if \<not> truthy ssl \<and> \<not> truthy (in_cycle inp)
      then Inl (ValueError ''cycle/sslsolver'')
      else
     (case max_level (in_clevel inp) (in_vnC inp) of
        Inl e \<Rightarrow> Inl e
      | Inr cl \<Rightarrow>
          Inr \<lparr> var_verb = in_verb inp,
                var_cycle = in_cycle inp,
                var_sslsolver = ssl,
                var_linerelaxation = (fst (first_dir lc) \<noteq> 0),
                var_semicoarsening = (fst (first_dir rc) \<noteq> 0),
                var_vnC = in_vnC inp,
                var_tol = in_tol inp,
                var_maxit = (if truthy ssl \<and> in_cycle inp \<noteq> None
                         then int (max (length (fst rc)) (length (fst lc)))
                         else in_maxit inp),
                var_nu_init = in_nu_init inp,
                var_nu_pre = in_nu_pre inp,
                var_nu_coarse = in_nu_coarse inp,
                var_nu_post = in_nu_post inp,
                var_clevel = cl,
                var_it = 0,
                var_ssl_it = 0,
                var_l2 = 0,
                var_rcycle = snd (first_dir rc),
                var_rdir = fst (first_dir rc),
                var_lcycle = snd (first_dir lc),
                var_ldir = fst (first_dir lc),
                var_cycmax = (if in_cycle inp \<in> {Some ''F'', Some ''W''} then 2 else 1),
                var_ssl_maxit = (if truthy ssl then in_maxit inp else 0),
                var_first_cycle = True \<rparr>)))))"


text \<open>
  The iteration limits that \<open>solver\<close> hands on: the Krylov routine is called with
  \<open>maxiter=var.ssl_maxit\<close>, and the cycle loop of \<open>multigrid\<close> compares its counter
  with \<open>var.maxit\<close>.
\<close>

definition krylov_maxiter :: "MGParameters \<Rightarrow> int" where
  "krylov_maxiter var = var_ssl_maxit var"

definition multigrid_maxit :: "MGParameters \<Rightarrow> int" where
  "multigrid_maxit var = var_maxit var"


section \<open>Arrays and model restriction (\<open>restriction\<close> in \<open>emg3d/solver.py\<close>)\<close>

text \<open>
  A three-dimensional numpy array \<open>param[ix, iy, iz]\<close> is a list of planes, each a list
  of rows.  The three basic slices used by the source are \<open>:\<close> (\<open>Full\<close>), \<open>:-1:2\<close>
  (\<open>Evens\<close>: positions 0, 2, ... without the last element) and \<open>1::2\<close> (\<open>Odds\<close>:
  positions 1, 3, ...).  Both halving slices of a list of length \<open>n\<close> have \<open>n div 2\<close>
  elements, so the element-wise sums of the source never meet a shape mismatch.
\<close>

type_synonym 'a arr3 = "'a list list list"

datatype slice = Full | Evens | Odds

fun every_other :: "'a list \<Rightarrow> 'a list" where
  "every_other [] = []"
| "every_other [x] = [x]"
| "every_other (x # y # xs) = x # every_other xs"

text \<open>One slice along one axis.\<close>

definition sl :: "slice \<Rightarrow> 'a list \<Rightarrow> 'a list" where
  "sl s xs = (case s of Full \<Rightarrow> xs | Evens \<Rightarrow> every_other (butlast xs) | Odds \<Rightarrow> every_other (tl xs))"

text \<open>\<open>param[sx, sy, sz]\<close>.\<close>

definition slice3 :: "slice \<Rightarrow> slice \<Rightarrow> slice \<Rightarrow> 'a arr3 \<Rightarrow> 'a arr3" where
  "slice3 sx sy sz p = map (\<lambda>plane. map (sl sz) (sl sy plane)) (sl sx p)"

text \<open>Element-wise \<open>+\<close> of two arrays of the same shape.\<close>

definition add3 :: "'a::plus arr3 \<Rightarrow> 'a arr3 \<Rightarrow> 'a arr3" where
  "add3 a b = map2 (map2 (map2 (+))) a b"

text \<open>The local function \<open>restr(param, rdir)\<close>, branch by branch.\<close>

definition restr :: "'a::plus arr3 \<Rightarrow> nat \<Rightarrow> 'a arr3" where
  "restr param rdir =
     (if rdir = 1 then
        add3 (add3 (slice3 Full Evens Evens param) (slice3 Full Odds Evens param))
             (add3 (slice3 Full Evens Odds param) (slice3 Full Odds Odds param))
      else if rdir = 2 then
        add3 (add3 (slice3 Evens Full Evens param) (slice3 Odds Full Evens param))
             (add3 (slice3 Evens Full Odds param) (slice3 Odds Full Odds param))
      else if rdir = 3 then
        add3 (add3 (slice3 Evens Evens Full param) (slice3 Odds Evens Full param))
             (add3 (slice3 Evens Odds Full param) (slice3 Odds Odds Full param))
      else if rdir = 4 then
        add3 (slice3 Evens Full Full param) (slice3 Odds Full Full param)
      else if rdir = 5 then
        add3 (slice3 Full Evens Full param) (slice3 Full Odds Full param)
      else if rdir = 6 then
        add3 (slice3 Full Full Evens param) (slice3 Full Full Odds param)
      else
        add3 (add3 (add3 (add3 (slice3 Evens Evens Evens param) (slice3 Odds Evens Evens param))
                         (add3 (slice3 Evens Evens Odds param) (slice3 Odds Evens Odds param)))
                   (add3 (slice3 Evens Odds Evens param) (slice3 Odds Odds Evens param)))
             (add3 (slice3 Evens Odds Odds param) (slice3 Odds Odds Odds param)))"

text \<open>
  Step 1 of \<open>restriction\<close>: \<open>rx, ry, rz\<close>, 1 along an axis that is not coarsened and 2
  along one that is.
\<close>

definition strides :: "nat \<Rightarrow> nat \<times> nat \<times> nat" where
  "strides rdir =
     (if rdir \<in> {1, 5, 6} then 1 else 2,
      if rdir \<in> {2, 4, 6} then 1 else 2,
      if rdir \<in> {3, 4, 5} then 1 else 2)"

text \<open>\<open>param.shape == (nx, ny, nz)\<close>.\<close>

definition shape3 :: "'a arr3 \<Rightarrow> nat \<times> nat \<times> nat \<Rightarrow> bool" where
  "shape3 p s = (case s of (nx, ny, nz) \<Rightarrow>
     length p = nx \<and> (\<forall>plane \<in> set p. length plane = ny \<and> (\<forall>row \<in> set plane. length row = nz)))"

text \<open>\<open>np.sum(param)\<close>.\<close>

definition sum3 :: "'a::comm_monoid_add arr3 \<Rightarrow> 'a" where
  "sum3 p = sum_list (map (\<lambda>plane. sum_list (map sum_list plane)) p)"


text \<open>Length of a slice and the position its \<open>i\<close>-th element comes from.\<close>

fun slen :: "slice \<Rightarrow> nat \<Rightarrow> nat" where
  "slen Full n = n" | "slen Evens n = n div 2" | "slen Odds n = n div 2"

fun soff :: "slice \<Rightarrow> nat \<Rightarrow> nat" where
  "soff Full i = i" | "soff Evens i = 2 * i" | "soff Odds i = 2 * i + 1"


section \<open>Results about the property maps\<close>

text \<open>
  Claim C10.  For each of the six registered maps, \<open>backward\<close> undoes \<open>forward\<close> on every
  strictly positive conductivity.
\<close>

theorem backward_forward:
  "0 < \<sigma> \<Longrightarrow> backward m (forward m \<sigma>) = \<sigma>"
proof (cases m)
  case MapLgResistivity
  assume pos: "0 < \<sigma>"
  have "log 10 (1 / \<sigma>) = - log 10 \<sigma>"
    using pos by (simp add: log_divide)
  then show ?thesis
    using pos MapLgResistivity by (simp add: powr_log_cancel)
next
  case MapLnResistivity
  assume pos: "0 < \<sigma>"
  have "ln (1 / \<sigma>) = - ln \<sigma>"
    using pos by (simp add: ln_div)
  then show ?thesis
    using pos MapLnResistivity by simp
qed (simp_all add: powr_log_cancel)

theorem backward_forward_witness:
  "(0::real) < 2 \<and> backward MapLgResistivity (forward MapLgResistivity 2) = 2
     \<and> backward MapLnConductivity (forward MapLnConductivity 2) = 2"
  using backward_forward [of 2 MapLgResistivity] backward_forward [of 2 MapLnConductivity]
  by simp


section \<open>Results about field construction\<close>

text \<open>
  Claim C9.  A field with frequency \<open>0\<close> cannot be built: the constructor fails with a
  \<open>ValueError\<close>.  For a positive frequency \<open>f\<close> the field is complex (its dtype is
  \<open>complex128\<close> and the data, if any, are stored as they are) and its Laplace parameter
  is \<open>s = -2\<i>\<pi>f\<close>.  For a negative frequency the field is real: its dtype is
  \<open>float64\<close>, every stored value has imaginary part \<open>0\<close>, the real parts are those of the
  data (zeros without data), and \<open>s = f\<close>.
\<close>

theorem Field_frequency:
  "(\<exists>msg. Field_init n data (Some 0) dt = Inl (ValueError msg))
   \<and> (0 < f \<longrightarrow>
        (\<exists>fld. Field_init n data (Some f) dt = Inr fld
               \<and> f_dtype fld = Complex128
               \<and> f_field fld = (case data of None \<Rightarrow> replicate n 0 | Some (d, vs) \<Rightarrow> vs)
               \<and> sval fld = Some (- 2 * \<i> * complex_of_real pi * complex_of_real f)))
   \<and> (f < 0 \<longrightarrow>
        (\<exists>fld. Field_init n data (Some f) dt = Inr fld
               \<and> f_dtype fld = Float64
               \<and> (\<forall>z \<in> set (f_field fld). Im z = 0)
               \<and> map Re (f_field fld) =
                   (case data of None \<Rightarrow> replicate n 0 | Some (d, vs) \<Rightarrow> map Re vs)
               \<and> sval fld = Some (complex_of_real f)))"
  by (auto simp add: Field_init_def sval_def split: option.splits prod.splits)

theorem Field_frequency_witness:
  "(0::real) < 10
   \<and> (\<exists>fld. Field_init 3 (Some (Float64, [1, 2])) (Some 10) None = Inr fld
            \<and> f_dtype fld = Complex128
            \<and> f_field fld = [1, 2]
            \<and> sval fld = Some (- 2 * \<i> * complex_of_real pi * complex_of_real 10))
   \<and> (- 10 :: real) < 0
   \<and> (\<exists>fld. Field_init 3 (Some (Complex128, [\<i>, Complex 2 3])) (Some (- 10)) None = Inr fld
            \<and> f_dtype fld = Float64
            \<and> (\<forall>z \<in> set (f_field fld). Im z = 0)
            \<and> map Re (f_field fld) = [0, 2]
            \<and> sval fld = Some (complex_of_real (- 10)))"
  using Field_frequency [of 3 "Some (Float64, [1, 2])" None 10]
        Field_frequency [of 3 "Some (Complex128, [\<i>, Complex 2 3])" None "- 10"]
  by simp


section \<open>Results about the solver settings\<close>

lemma post_init_InrD:
  assumes "post_init inp = Inr var"
  obtains rc lc ssl cl where
    "semicoarsening_cycle (in_semicoarsening inp) = Inr rc"
    "linerelaxation_cycle (in_linerelaxation inp) = Inr lc"
    "check_sslsolver (in_sslsolver inp) = Inr ssl"
    "max_level (in_clevel inp) (in_vnC inp) = Inr cl"
    "var_sslsolver var = ssl" "var_cycle var = in_cycle inp" "var_clevel var = cl"
    "var_maxit var = (if truthy ssl \<and> in_cycle inp \<noteq> None
                  then int (max (length (fst rc)) (length (fst lc))) else in_maxit inp)"
    "var_ssl_maxit var = (if truthy ssl then in_maxit inp else 0)"
    "var_rdir var = fst (first_dir rc)" "var_ldir var = fst (first_dir lc)"
    "var_cycmax var = (if in_cycle inp \<in> {Some ''F'', Some ''W''} then 2 else 1)"
    "var_vnC var = in_vnC inp" "var_tol var = in_tol inp"
    "var_it var = 0" "var_ssl_it var = 0"
  using assms unfolding post_init_def
  by (auto split: sum.splits if_splits)

text \<open>
  Claim C8, as amended.  With a Krylov solver and a multigrid cycle together, the Krylov
  routine gets the user's \<open>maxit\<close>, and it is the multigrid preconditioner whose
  limit becomes the longer of the two direction cycles.  With a Krylov solver alone, or
  with multigrid alone, the user's \<open>maxit\<close> is the limit of the solver that runs.
\<close>

theorem maxit_policy:
  assumes "post_init inp = Inr var"
    and "semicoarsening_cycle (in_semicoarsening inp) = Inr rc"
    and "linerelaxation_cycle (in_linerelaxation inp) = Inr lc"
  shows "(truthy (var_sslsolver var) \<and> var_cycle var \<noteq> None \<longrightarrow>
            krylov_maxiter var = in_maxit inp
          \<and> multigrid_maxit var = int (max (length (fst rc)) (length (fst lc))))
       \<and> (truthy (var_sslsolver var) \<and> var_cycle var = None \<longrightarrow>
            krylov_maxiter var = in_maxit inp)
       \<and> (\<not> truthy (var_sslsolver var) \<longrightarrow> multigrid_maxit var = in_maxit inp)"
  using assms
  by (elim post_init_InrD) (simp add: krylov_maxiter_def multigrid_maxit_def)

theorem maxit_policy_witness:
  "truthy (var_sslsolver (projr (post_init ((default_input (48, 32, 32))
       \<lparr>in_sslsolver := SolBool True, in_semicoarsening := PyBool True\<rparr>))))
   \<and> krylov_maxiter (projr (post_init ((default_input (48, 32, 32))
       \<lparr>in_sslsolver := SolBool True, in_semicoarsening := PyBool True\<rparr>))) = 50
   \<and> multigrid_maxit (projr (post_init ((default_input (48, 32, 32))
       \<lparr>in_sslsolver := SolBool True, in_semicoarsening := PyBool True\<rparr>))) = 3"
proof -
  let ?inp = "(default_input (48, 32, 32))
       \<lparr>in_sslsolver := SolBool True, in_semicoarsening := PyBool True\<rparr>"
  have ok: "\<not> isl (post_init ?inp)"
    by code_simp
  then have h1: "post_init ?inp = Inr (projr (post_init ?inp))"
    by (cases "post_init ?inp") simp_all
  have h2: "semicoarsening_cycle (in_semicoarsening ?inp) = Inr ([1, 2, 3], True)"
    by (simp add: semicoarsening_cycle_def default_input_def)
  have h3: "linerelaxation_cycle (in_linerelaxation ?inp) = Inr ([0], False)"
    by (simp add: linerelaxation_cycle_def default_input_def)
  have h4: "truthy (var_sslsolver (projr (post_init ?inp)))"
    by code_simp
  have h5: "var_cycle (projr (post_init ?inp)) \<noteq> None"
    by code_simp
  have h6: "in_maxit ?inp = 50"
    by (simp add: default_input_def)
  show ?thesis
    using maxit_policy [OF h1 h2 h3] h4 h5 h6 by simp
qed

text \<open>
  The claim as first stated gives the Krylov routine the length of the longer direction
  cycle.  With the default settings and \<open>sslsolver=True\<close> both cycles have length one,
  and the Krylov routine is called with \<open>maxiter = 50\<close>.
\<close>

theorem maxit_policy_counterexample:
  "truthy (var_sslsolver (projr (post_init ((default_input (4, 4, 4))
       \<lparr>in_sslsolver := SolBool True\<rparr>))))
   \<and> var_cycle (projr (post_init ((default_input (4, 4, 4))
       \<lparr>in_sslsolver := SolBool True\<rparr>))) \<noteq> None
   \<and> semicoarsening_cycle (in_semicoarsening ((default_input (4, 4, 4))
       \<lparr>in_sslsolver := SolBool True\<rparr>)) = Inr ([0], False)
   \<and> linerelaxation_cycle (in_linerelaxation ((default_input (4, 4, 4))
       \<lparr>in_sslsolver := SolBool True\<rparr>)) = Inr ([0], False)
   \<and> krylov_maxiter (projr (post_init ((default_input (4, 4, 4))
       \<lparr>in_sslsolver := SolBool True\<rparr>)))
       \<noteq> int (max (length [0::nat]) (length [0::nat]))"
  by code_simp


section \<open>Results about model restriction\<close>

lemma length_every_other: "length (every_other xs) = (length xs + 1) div 2"
  by (induction xs rule: every_other.induct) auto

lemma nth_every_other: "2 * i < length xs \<Longrightarrow> every_other xs ! i = xs ! (2 * i)"
proof (induction xs arbitrary: i rule: every_other.induct)
  case (3 x y xs)
  then show ?case by (cases i) auto
qed auto

lemma set_every_other: "set (every_other xs) \<subseteq> set xs"
  by (induction xs rule: every_other.induct) auto

lemma length_sl: "length (sl s xs) = slen s (length xs)"
  by (cases s; cases xs) (auto simp: sl_def length_every_other)

lemma set_sl: "set (sl s xs) \<subseteq> set xs"
proof (cases s)
  case Evens
  then show ?thesis using set_every_other[of "butlast xs"] in_set_butlastD[of _ xs]
    by (auto simp: sl_def)
next
  case Odds
  then show ?thesis using set_every_other[of "tl xs"] list.set_sel(2)[of xs]
    by (cases xs) (auto simp: sl_def)
qed (simp add: sl_def)

lemma soff_less: "i < slen s n \<Longrightarrow> soff s i < n"
  by (cases s) auto

lemma nth_sl: "i < slen s (length xs) \<Longrightarrow> sl s xs ! i = xs ! soff s i"
proof (cases s)
  case Evens
  assume "i < slen s (length xs)"
  with Evens have i: "2 * i + 1 < length xs" by simp
  then have "every_other (butlast xs) ! i = butlast xs ! (2 * i)"
    by (intro nth_every_other) simp
  also have "\<dots> = xs ! (2 * i)" using i by (simp add: nth_butlast)
  finally show ?thesis using Evens by (simp add: sl_def)
next
  case Odds
  assume "i < slen s (length xs)"
  with Odds have i: "2 * i + 1 < length xs" by simp
  then have "every_other (tl xs) ! i = tl xs ! (2 * i)"
    by (intro nth_every_other) simp
  also have "\<dots> = xs ! (2 * i + 1)" using i by (simp add: nth_tl)
  finally show ?thesis using Odds by (simp add: sl_def)
qed (simp add: sl_def)

lemma in_set_sl: "x \<in> set (sl s xs) \<Longrightarrow> x \<in> set xs"
  using set_sl[of s xs] by (rule subsetD)

lemma shape3_slice3:
  assumes "shape3 p (nx, ny, nz)"
  shows "shape3 (slice3 sx sy sz p) (slen sx nx, slen sy ny, slen sz nz)"
  using assms
  by (auto simp: shape3_def slice3_def length_sl dest!: in_set_sl)

lemma nth_slice3:
  assumes "shape3 p (nx, ny, nz)" "i < slen sx nx" "j < slen sy ny" "k < slen sz nz"
  shows "slice3 sx sy sz p ! i ! j ! k = p ! soff sx i ! soff sy j ! soff sz k"
proof -
  have lp: "length p = nx" using assms(1) by (simp add: shape3_def)
  have pi: "p ! soff sx i \<in> set p" using soff_less[OF assms(2)] lp by simp
  then have lpl: "length (p ! soff sx i) = ny" using assms(1) by (auto simp: shape3_def)
  have pj: "p ! soff sx i ! soff sy j \<in> set (p ! soff sx i)"
    using soff_less[OF assms(3)] lpl by simp
  then have lr: "length (p ! soff sx i ! soff sy j) = nz"
    using assms(1) pi by (auto simp: shape3_def)
  show ?thesis
    using assms(2-4) lp lpl lr by (simp add: slice3_def length_sl nth_sl)
qed

lemma shape3_add3:
  assumes "shape3 a s" "shape3 b s"
  shows "shape3 (add3 a b) s"
  using assms
  by (cases s) (auto simp: shape3_def add3_def dest!: set_zip_leftD set_zip_rightD
      elim!: in_set_zipE)

lemma nth_add3:
  assumes "shape3 a (nx, ny, nz)" "shape3 b (nx, ny, nz)" "i < nx" "j < ny" "k < nz"
  shows "add3 a b ! i ! j ! k = a ! i ! j ! k + b ! i ! j ! k"
proof -
  have la: "length a = nx" "length b = nx" using assms by (simp_all add: shape3_def)
  have "a ! i \<in> set a" "b ! i \<in> set b" using la assms(3) by simp_all
  then have l2: "length (a ! i) = ny" "length (b ! i) = ny"
    and r: "\<forall>row \<in> set (a ! i). length row = nz" "\<forall>row \<in> set (b ! i). length row = nz"
    using assms(1,2) by (auto simp: shape3_def)
  have "a ! i ! j \<in> set (a ! i)" "b ! i ! j \<in> set (b ! i)" using l2 assms(4) by simp_all
  then have l3: "length (a ! i ! j) = nz" "length (b ! i ! j) = nz" using r by auto
  show ?thesis using la l2 l3 assms(3-5) by (simp add: add3_def)
qed

lemma sum_lessThan_1: "(\<Sum>a<(1::nat). f a) = f 0"
  by simp

lemma sum_lessThan_2: "(\<Sum>a<(2::nat). f a) = f 0 + f 1"
  by (simp add: numeral_2_eq_2)

lemma shape3_slice3_div:
  assumes "shape3 p (nx, ny, nz)"
    and "slen sx nx = cx" "slen sy ny = cy" "slen sz nz = cz"
  shows "shape3 (slice3 sx sy sz p) (cx, cy, cz)"
  using shape3_slice3[OF assms(1), of sx sy sz] assms(2-4) by simp

lemma restr_nth:
  fixes p :: "'a::comm_monoid_add arr3"
  assumes sh: "shape3 p (nx, ny, nz)"
    and st: "strides rdir = (rx, ry, rz)"
    and i: "i < nx div rx" and j: "j < ny div ry" and k: "k < nz div rz"
  shows "restr p rdir ! i ! j ! k =
           (\<Sum>a<rx. \<Sum>b<ry. \<Sum>c<rz. p ! (rx * i + a) ! (ry * j + b) ! (rz * k + c))"
proof -
  note [simp] = nth_slice3[OF sh] sum_lessThan_1 sum_lessThan_2
  consider "rdir = 1" | "rdir = 2" | "rdir = 3" | "rdir = 4" | "rdir = 5" | "rdir = 6"
    | "rdir \<notin> {1, 2, 3, 4, 5, 6}" by auto
  then show ?thesis
  proof cases
    case 1
    then have r [simp]: "rx = 1" "ry = 2" "rz = 2" using st by (simp_all add: strides_def)
    have s: "sy \<noteq> Full \<Longrightarrow> sz \<noteq> Full \<Longrightarrow> shape3 (slice3 Full sy sz p) (nx, ny div 2, nz div 2)"
      for sy sz
      by (rule shape3_slice3_div[OF sh]) (cases sy; cases sz; simp)+
    note a = shape3_add3[OF s s]
    show ?thesis using 1 i j k
      by (simp add: restr_def nth_add3[OF s s] nth_add3[OF a a] ac_simps)
  next
    case 2
    then have r [simp]: "rx = 2" "ry = 1" "rz = 2" using st by (simp_all add: strides_def)
    have s: "sx \<noteq> Full \<Longrightarrow> sz \<noteq> Full \<Longrightarrow> shape3 (slice3 sx Full sz p) (nx div 2, ny, nz div 2)"
      for sx sz
      by (rule shape3_slice3_div[OF sh]) (cases sx; cases sz; simp)+
    note a = shape3_add3[OF s s]
    show ?thesis using 2 i j k
      by (simp add: restr_def nth_add3[OF s s] nth_add3[OF a a] ac_simps)
  next
    case 3
    then have r [simp]: "rx = 2" "ry = 2" "rz = 1" using st by (simp_all add: strides_def)
    have s: "sx \<noteq> Full \<Longrightarrow> sy \<noteq> Full \<Longrightarrow> shape3 (slice3 sx sy Full p) (nx div 2, ny div 2, nz)"
      for sx sy
      by (rule shape3_slice3_div[OF sh]) (cases sx; cases sy; simp)+
    note a = shape3_add3[OF s s]
    show ?thesis using 3 i j k
      by (simp add: restr_def nth_add3[OF s s] nth_add3[OF a a] ac_simps)
  next
    case 4
    then have r [simp]: "rx = 2" "ry = 1" "rz = 1" using st by (simp_all add: strides_def)
    have s: "sx \<noteq> Full \<Longrightarrow> shape3 (slice3 sx Full Full p) (nx div 2, ny, nz)" for sx
      by (rule shape3_slice3_div[OF sh]) (cases sx; simp)+
    show ?thesis using 4 i j k
      by (simp add: restr_def nth_add3[OF s s] ac_simps)
  next
    case 5
    then have r [simp]: "rx = 1" "ry = 2" "rz = 1" using st by (simp_all add: strides_def)
    have s: "sy \<noteq> Full \<Longrightarrow> shape3 (slice3 Full sy Full p) (nx, ny div 2, nz)" for sy
      by (rule shape3_slice3_div[OF sh]) (cases sy; simp)+
    show ?thesis using 5 i j k
      by (simp add: restr_def nth_add3[OF s s] ac_simps)
  next
    case 6
    then have r [simp]: "rx = 1" "ry = 1" "rz = 2" using st by (simp_all add: strides_def)
    have s: "sz \<noteq> Full \<Longrightarrow> shape3 (slice3 Full Full sz p) (nx, ny, nz div 2)" for sz
      by (rule shape3_slice3_div[OF sh]) (cases sz; simp)+
    show ?thesis using 6 i j k
      by (simp add: restr_def nth_add3[OF s s] ac_simps)
  next
    case 7
    then have r [simp]: "rx = 2" "ry = 2" "rz = 2" using st by (simp_all add: strides_def)
    have s: "sx \<noteq> Full \<Longrightarrow> sy \<noteq> Full \<Longrightarrow> sz \<noteq> Full
               \<Longrightarrow> shape3 (slice3 sx sy sz p) (nx div 2, ny div 2, nz div 2)"
      for sx sy sz
      by (rule shape3_slice3_div[OF sh]) (cases sx; cases sy; cases sz; simp)+
    note a = shape3_add3[OF s s]
    note b = shape3_add3[OF a a]
    note c = shape3_add3[OF b a]
    show ?thesis using 7 i j k
      by (simp add: restr_def nth_add3[OF s s] nth_add3[OF a a] nth_add3[OF b a]
          nth_add3[OF c a] ac_simps)
  qed
qed

lemma sl_Even_Cons2: "sl Evens (x # y # xs) = x # sl Evens xs"
  by (cases xs) (simp_all add: sl_def)

lemma every_other_Cons: "every_other (y # xs) = y # every_other (tl xs)"
  by (cases xs) simp_all

lemma sl_Odd_Cons2: "sl Odds (x # y # xs) = y # sl Odds xs"
  by (simp add: sl_def every_other_Cons)

lemma sum_list_sl_pair:
  fixes F :: "'b \<Rightarrow> 'a::comm_monoid_add"
  assumes "even (length xs)"
  shows "sum_list (map F (sl Evens xs)) + sum_list (map F (sl Odds xs)) = sum_list (map F xs)"
  using assms
proof (induction xs rule: induct_list012)
  case (3 x y zs)
  then have "even (length zs)" by simp
  with 3 have IH: "sum_list (map F (sl Evens zs)) + sum_list (map F (sl Odds zs))
      = sum_list (map F zs)" by simp
  show ?case
    by (simp add: sl_Even_Cons2 sl_Odd_Cons2 IH[symmetric] ac_simps)
qed (simp_all add: sl_def)

lemma sum3_slice3:
  "sum3 (slice3 sx sy sz p) =
     sum_list (map (\<lambda>plane. sum_list (map (\<lambda>row. sum_list (sl sz row)) (sl sy plane))) (sl sx p))"
  by (simp add: sum3_def slice3_def comp_def)

lemma sum3_pair_x:
  fixes p :: "'a::comm_monoid_add arr3"
  assumes "even (length p)"
  shows "sum3 (slice3 Evens sy sz p) + sum3 (slice3 Odds sy sz p) = sum3 (slice3 Full sy sz p)"
  unfolding sum3_slice3 using sum_list_sl_pair[OF assms] by (simp add: sl_def[of Full])

lemma sum3_pair_y:
  fixes p :: "'a::comm_monoid_add arr3"
  assumes "\<forall>plane \<in> set p. even (length plane)"
  shows "sum3 (slice3 sx Evens sz p) + sum3 (slice3 sx Odds sz p) = sum3 (slice3 sx Full sz p)"
proof -
  have ev: "even (length plane)" if "plane \<in> set (sl sx p)" for plane
    using assms in_set_sl[OF that] by blast
  have "sum_list (map (\<lambda>row. sum_list (sl sz row)) (sl Evens plane))
      + sum_list (map (\<lambda>row. sum_list (sl sz row)) (sl Odds plane))
      = sum_list (map (\<lambda>row. sum_list (sl sz row)) (sl Full plane))"
    if "plane \<in> set (sl sx p)" for plane
    using sum_list_sl_pair[OF ev[OF that]] by (simp add: sl_def[of Full])
  then show ?thesis
    unfolding sum3_slice3 sum_list_addf[symmetric] by (simp cong: map_cong)
qed

lemma sum3_pair_z:
  fixes p :: "'a::comm_monoid_add arr3"
  assumes "\<forall>plane \<in> set p. \<forall>row \<in> set plane. even (length row)"
  shows "sum3 (slice3 sx sy Evens p) + sum3 (slice3 sx sy Odds p) = sum3 (slice3 sx sy Full p)"
proof -
  have ev: "even (length row)"
    if "plane \<in> set (sl sx p)" "row \<in> set (sl sy plane)" for plane row
    using assms in_set_sl[OF that(1)] in_set_sl[OF that(2)] by blast
  have row: "sum_list (sl Evens row) + sum_list (sl Odds row) = sum_list (sl Full row)"
    if "plane \<in> set (sl sx p)" "row \<in> set (sl sy plane)" for plane row
    using sum_list_sl_pair[OF ev[OF that], of "\<lambda>x. x"] by (simp add: sl_def[of Full])
  have "sum_list (map (\<lambda>row. sum_list (sl Evens row)) (sl sy plane))
      + sum_list (map (\<lambda>row. sum_list (sl Odds row)) (sl sy plane))
      = sum_list (map (\<lambda>row. sum_list (sl Full row)) (sl sy plane))"
    if "plane \<in> set (sl sx p)" for plane
    unfolding sum_list_addf[symmetric] using row[OF that] by (simp cong: map_cong)
  then show ?thesis
    unfolding sum3_slice3 sum_list_addf[symmetric] by (simp cong: map_cong)
qed

lemma slice3_All: "slice3 Full Full Full p = p"
  by (simp add: slice3_def sl_def map_idI)

lemma sum_list_map2_add:
  fixes f :: "'b \<Rightarrow> 'a::comm_monoid_add"
  assumes "length xs = length ys"
    and "\<And>x y. (x, y) \<in> set (zip xs ys) \<Longrightarrow> f (g x y) = f x + f y"
  shows "sum_list (map f (map2 g xs ys)) = sum_list (map f xs) + sum_list (map f ys)"
  using assms
proof (induction xs ys rule: list_induct2)
  case (Cons x xs y ys)
  then show ?case by (simp add: ac_simps)
qed simp

lemma sum3_add3:
  fixes a :: "'a::comm_monoid_add arr3"
  assumes "shape3 a s" "shape3 b s"
  shows "sum3 (add3 a b) = sum3 a + sum3 b"
proof -
  obtain nx ny nz where s: "s = (nx, ny, nz)" by (cases s)
  have rows: "sum_list (map2 (+) r1 r2) = sum_list r1 + sum_list r2"
    if "length r1 = length r2" for r1 r2 :: "'a list"
    using sum_list_map2_add[OF that, of "\<lambda>x. x" "(+)"] by simp
  have planes: "sum_list (map sum_list (map2 (map2 (+)) p1 p2))
      = sum_list (map sum_list p1) + sum_list (map sum_list p2)"
    if "p1 \<in> set a" "p2 \<in> set b" for p1 p2
  proof (rule sum_list_map2_add)
    show "length p1 = length p2" using that assms s by (auto simp: shape3_def)
    fix x y assume "(x, y) \<in> set (zip p1 p2)"
    then have "x \<in> set p1" "y \<in> set p2" by (auto dest: set_zip_leftD set_zip_rightD)
    then have "length x = length y" using that assms s by (auto simp: shape3_def)
    then show "sum_list (map2 (+) x y) = sum_list x + sum_list y" by (rule rows)
  qed
  have "sum_list (map (\<lambda>plane. sum_list (map sum_list plane)) (map2 (map2 (map2 (+))) a b))
      = sum_list (map (\<lambda>plane. sum_list (map sum_list plane)) a)
        + sum_list (map (\<lambda>plane. sum_list (map sum_list plane)) b)"
  proof (rule sum_list_map2_add)
    show "length a = length b" using assms s by (simp add: shape3_def)
    fix x y assume "(x, y) \<in> set (zip a b)"
    then have "x \<in> set a" "y \<in> set b" by (auto dest: set_zip_leftD set_zip_rightD)
    then show "sum_list (map sum_list (map2 (map2 (+)) x y))
        = sum_list (map sum_list x) + sum_list (map sum_list y)" by (rule planes)
  qed
  then show ?thesis by (simp add: sum3_def add3_def)
qed

lemma restr_sum3:
  fixes p :: "'a::comm_monoid_add arr3"
  assumes sh: "shape3 p (nx, ny, nz)"
    and st: "strides rdir = (rx, ry, rz)"
    and dv: "rx dvd nx" "ry dvd ny" "rz dvd nz"
  shows "shape3 (restr p rdir) (nx div rx, ny div ry, nz div rz)
       \<and> sum3 (restr p rdir) = sum3 p"
proof -
  have ex: "even (length p)" if "rx = 2"
    using that sh dv by (simp add: shape3_def)
  have ey: "\<forall>plane \<in> set p. even (length plane)" if "ry = 2"
    using that sh dv by (simp add: shape3_def)
  have ez: "\<forall>plane \<in> set p. \<forall>row \<in> set plane. even (length row)" if "rz = 2"
    using that sh dv by (simp add: shape3_def)
  note px = sum3_pair_x[OF ex] and py = sum3_pair_y[OF ey] and pz = sum3_pair_z[OF ez]
  consider "rdir = 1" | "rdir = 2" | "rdir = 3" | "rdir = 4" | "rdir = 5" | "rdir = 6"
    | "rdir \<notin> {1, 2, 3, 4, 5, 6}" by auto
  then show ?thesis
  proof cases
    case 1
    then have r [simp]: "rx = 1" "ry = 2" "rz = 2" using st by (simp_all add: strides_def)
    have s: "sy \<noteq> Full \<Longrightarrow> sz \<noteq> Full \<Longrightarrow> shape3 (slice3 Full sy sz p) (nx, ny div 2, nz div 2)"
      for sy sz
      by (rule shape3_slice3_div[OF sh]) (cases sy; cases sz; simp)+
    note a = shape3_add3[OF s s]
    show ?thesis using 1
      by (simp add: restr_def sum3_add3[OF s s] sum3_add3[OF a a] shape3_add3[OF a a]
          py pz slice3_All)
  next
    case 2
    then have r [simp]: "rx = 2" "ry = 1" "rz = 2" using st by (simp_all add: strides_def)
    have s: "sx \<noteq> Full \<Longrightarrow> sz \<noteq> Full \<Longrightarrow> shape3 (slice3 sx Full sz p) (nx div 2, ny, nz div 2)"
      for sx sz
      by (rule shape3_slice3_div[OF sh]) (cases sx; cases sz; simp)+
    note a = shape3_add3[OF s s]
    show ?thesis using 2
      by (simp add: restr_def sum3_add3[OF s s] sum3_add3[OF a a] shape3_add3[OF a a]
          px pz slice3_All)
  next
    case 3
    then have r [simp]: "rx = 2" "ry = 2" "rz = 1" using st by (simp_all add: strides_def)
    have s: "sx \<noteq> Full \<Longrightarrow> sy \<noteq> Full \<Longrightarrow> shape3 (slice3 sx sy Full p) (nx div 2, ny div 2, nz)"
      for sx sy
      by (rule shape3_slice3_div[OF sh]) (cases sx; cases sy; simp)+
    note a = shape3_add3[OF s s]
    show ?thesis using 3
      by (simp add: restr_def sum3_add3[OF s s] sum3_add3[OF a a] shape3_add3[OF a a]
          px py slice3_All)
  next
    case 4
    then have r [simp]: "rx = 2" "ry = 1" "rz = 1" using st by (simp_all add: strides_def)
    have s: "sx \<noteq> Full \<Longrightarrow> shape3 (slice3 sx Full Full p) (nx div 2, ny, nz)" for sx
      by (rule shape3_slice3_div[OF sh]) (cases sx; simp)+
    show ?thesis using 4
      by (simp add: restr_def sum3_add3[OF s s] shape3_add3[OF s s] px slice3_All)
  next
    case 5
    then have r [simp]: "rx = 1" "ry = 2" "rz = 1" using st by (simp_all add: strides_def)
    have s: "sy \<noteq> Full \<Longrightarrow> shape3 (slice3 Full sy Full p) (nx, ny div 2, nz)" for sy
      by (rule shape3_slice3_div[OF sh]) (cases sy; simp)+
    show ?thesis using 5
      by (simp add: restr_def sum3_add3[OF s s] shape3_add3[OF s s] py slice3_All)
  next
    case 6
    then have r [simp]: "rx = 1" "ry = 1" "rz = 2" using st by (simp_all add: strides_def)
    have s: "sz \<noteq> Full \<Longrightarrow> shape3 (slice3 Full Full sz p) (nx, ny, nz div 2)" for sz
      by (rule shape3_slice3_div[OF sh]) (cases sz; simp)+
    show ?thesis using 6
      by (simp add: restr_def sum3_add3[OF s s] shape3_add3[OF s s] pz slice3_All)
  next
    case 7
    then have r [simp]: "rx = 2" "ry = 2" "rz = 2" using st by (simp_all add: strides_def)
    have s: "sx \<noteq> Full \<Longrightarrow> sy \<noteq> Full \<Longrightarrow> sz \<noteq> Full
               \<Longrightarrow> shape3 (slice3 sx sy sz p) (nx div 2, ny div 2, nz div 2)"
      for sx sy sz
      by (rule shape3_slice3_div[OF sh]) (cases sx; cases sy; cases sz; simp)+
    note a = shape3_add3[OF s s]
    note b = shape3_add3[OF a a]
    note c = shape3_add3[OF b a]
    have "sum3 (restr p rdir) =
            ((sum3 (slice3 Full Evens Evens p) + sum3 (slice3 Full Evens Odds p))
              + sum3 (slice3 Full Odds Evens p)) + sum3 (slice3 Full Odds Odds p)"
      using 7
      by (simp add: restr_def sum3_add3[OF s s] sum3_add3[OF a a] sum3_add3[OF b a]
          sum3_add3[OF c a] px)
    also have "\<dots> = (sum3 (slice3 Full Evens Evens p) + sum3 (slice3 Full Odds Evens p))
              + (sum3 (slice3 Full Evens Odds p) + sum3 (slice3 Full Odds Odds p))"
      by (simp add: ac_simps)
    also have "\<dots> = sum3 p"
      by (simp add: py pz slice3_All)
    finally have "sum3 (restr p rdir) = sum3 p" .
    moreover have "shape3 (restr p rdir) (nx div rx, ny div ry, nz div rz)"
      using 7 by (simp add: restr_def shape3_add3[OF c a])
    ultimately show ?thesis by simp
  qed
qed

text \<open>
  Claim C7.  For every restriction direction and every coefficient array whose
  dimensions are even along the coarsened axes, each coarse cell of \<open>restr\<close> holds
  exactly the sum of the 2, 4 or 8 fine cells it covers, and so the total over the
  coarse array equals the total over the fine array.  (Sums are exact: floating-point
  rounding is not modelled.)
\<close>

theorem restr_additive:
  fixes eta :: "'a::comm_monoid_add arr3"
  assumes "shape3 eta (nx, ny, nz)"
    and "strides rdir = (rx, ry, rz)"
    and "rx dvd nx" and "ry dvd ny" and "rz dvd nz"
  shows "rx * ry * rz \<in> {2, 4, 8}
       \<and> shape3 (restr eta rdir) (nx div rx, ny div ry, nz div rz)
       \<and> (\<forall>i < nx div rx. \<forall>j < ny div ry. \<forall>k < nz div rz.
            restr eta rdir ! i ! j ! k =
              (\<Sum>a<rx. \<Sum>b<ry. \<Sum>c<rz. eta ! (rx * i + a) ! (ry * j + b) ! (rz * k + c)))
       \<and> sum3 (restr eta rdir) = sum3 eta"
proof -
  have "rx * ry * rz \<in> {2, 4, 8}"
    using assms(2) by (auto simp: strides_def split: if_splits)
  moreover note restr_sum3[OF assms] restr_nth[OF assms(1,2)]
  ultimately show ?thesis by simp
qed

theorem restr_additive_witness:
  "shape3 [[[1, 2], [3, 4]], [[5, 6], [7, 8 :: int]]] (2, 2, 2)
   \<and> strides 0 = (2, 2, 2)
   \<and> restr [[[1, 2], [3, 4]], [[5, 6], [7, 8 :: int]]] 0 ! 0 ! 0 ! 0 = 36
   \<and> sum3 (restr [[[1, 2], [3, 4]], [[5, 6], [7, 8 :: int]]] 0)
       = sum3 [[[1, 2], [3, 4]], [[5, 6], [7, 8 :: int]]]"
proof -
  have h1: "shape3 [[[1, 2], [3, 4]], [[5, 6], [7, 8 :: int]]] (2, 2, 2)"
    by (simp add: shape3_def)
  have h2: "strides 0 = (2, 2, 2)"
    by (simp add: strides_def)
  have d: "(2::nat) dvd 2"
    by simp
  show ?thesis
    using restr_additive [OF h1 h2 d d d] h1 h2
    by (simp add: sum_lessThan_2)
qed

end
